theory Spec2Isabelle
  imports Main
begin

section \<open>The step-through driver of \<^verbatim>\<open>src/lib/simplifyExpressionNode.js\<close>\<close>

text \<open>
  The file under verification holds three functions: \<^verbatim>\<open>stepThroughExpression\<close> (the
  fixed-point driver), \<^verbatim>\<open>step\<close> (the dispatcher over nine tree searches) and
  \<^verbatim>\<open>addStep\<close> (the builder of the output records). Everything else it calls is
  required from other modules and is not part of the file: the nine searches, the two
  normalisers, the unsupported-node check, the printer and the \<^verbatim>\<open>NodeStatus\<close> class.
  The functions of the file are embedded as they are written; the functions they import
  are parameters, collected in the record \<open>collab\<close>, so every theorem holds for all
  implementations of them. They are functions of their arguments alone: section 6 of the
  spec requires the normalisers, the searches and the printer to be pure and never to
  mutate their input, so a tree is a value and sharing between trees plays no part.
\<close>

subsection \<open>Data\<close>

text \<open>
  Modelled from the spec: the expression tree (a mathjs node; the type is declared outside
  the file). Section 6 of the spec lists its variants: number literal, symbol, operator
  with ordered operands, function application and explicit grouping.
\<close>

datatype node =
    ConstantNode int
  | SymbolNode string
  | OperatorNode string "node list"
  | FunctionNode string "node list"
  | ParenthesisNode node

text \<open>
  Modelled from the spec: the class \<^verbatim>\<open>NodeStatus\<close> (\<^verbatim>\<open>./util/NodeStatus\<close>, not in the
  file), the Change Record of section 3: whether a rewrite occurred, the tag of the
  rewrite, the trees before and after, and the nested sub-rewrites.
  \<^verbatim>\<open>hasChanged()\<close> reads the flag.
\<close>

datatype nodeStatus =
  NodeStatus (changed: bool) (changeType: string) (oldNode: node) (newNode: node)
    (substeps: "nodeStatus list")

definition hasChanged :: "nodeStatus \<Rightarrow> bool" where
  "hasChanged nodeStatus = changed nodeStatus"

text \<open>
  Modelled from the spec: \<^verbatim>\<open>NodeStatus.noChange(node)\<close>, the no-change record wrapping a
  tree: \<open>changed\<close> is false, the tree is the record's \<open>after\<close>, and there are no
  sub-rewrites. The spec fixes neither the tag nor the \<open>before\<close> tree of such a record;
  the model stores a fixed tag and the wrapped tree, and no theorem below reads them.
\<close>

definition noChange :: "node \<Rightarrow> nodeStatus" where
  "noChange node = NodeStatus False ''NO_CHANGE'' node node []"

text \<open>
  Modelled from the spec: \<^verbatim>\<open>clone\<close> (\<^verbatim>\<open>./util/clone\<close>), the deep value copy of a tree.
  Trees are values here, so the copy is the tree itself.
\<close>

definition clone :: "node \<Rightarrow> node" where
  "clone node = node"

text \<open>The assignment \<^verbatim>\<open>nodeStatus.newNode = ...\<close> of line 97.\<close>

definition setNewNode :: "nodeStatus \<Rightarrow> node \<Rightarrow> nodeStatus" where
  "setNewNode nodeStatus node =
     NodeStatus (changed nodeStatus) (changeType nodeStatus) (oldNode nodeStatus) node
       (substeps nodeStatus)"

text \<open>
  The object pushed by \<^verbatim>\<open>addStep\<close> (lines 116 to 122), with the five keys of the source:
  \<^verbatim>\<open>changeType\<close>, \<^verbatim>\<open>oldNode\<close>, \<^verbatim>\<open>newNode\<close>, \<^verbatim>\<open>substeps\<close> and \<^verbatim>\<open>asciimath\<close>.
\<close>

datatype stepRecord =
  StepRecord (stepChangeType: string) (stepOldNode: node) (stepNewNode: node)
    (stepSubsteps: "stepRecord list") (asciimath: string)

text \<open>What the file writes to the console: \<^verbatim>\<open>console.log\<close> and \<^verbatim>\<open>console.error\<close>.\<close>

datatype console = Log string | Error string

text \<open>
  The imported functions, as parameters. \<open>removeUnnecessaryParens\<close> takes the flag the
  file always passes (\<^verbatim>\<open>true\<close>); \<open>print\<close> takes the tree and the list of the optional
  arguments of the call (\<^verbatim>\<open>print(node)\<close> passes none, \<^verbatim>\<open>print(node, false, true)\<close> passes
  two); \<open>reset\<close> is the method \<^verbatim>\<open>nodeStatus.reset()\<close> of line 45, which updates the record
  it is called on. The nine searches have the names under which the file requires them.
\<close>

record collab =
  hasUnsupportedNodes :: "node \<Rightarrow> bool"
  flattenOperands :: "node \<Rightarrow> node"
  removeUnnecessaryParens :: "node \<Rightarrow> bool \<Rightarrow> node"
  print :: "node \<Rightarrow> bool list \<Rightarrow> string"
  reset :: "nodeStatus \<Rightarrow> nodeStatus"
  simplifyBasicsSearch :: "node \<Rightarrow> nodeStatus"
  simplifyDivisionSearch :: "node \<Rightarrow> nodeStatus"
  simplifyFractionsSearch :: "node \<Rightarrow> nodeStatus"
  evaluateArithmeticSearch :: "node \<Rightarrow> nodeStatus"
  collectAndCombineSearch :: "node \<Rightarrow> nodeStatus"
  breakUpNumeratorSearch :: "node \<Rightarrow> nodeStatus"
  multiplyFractionsSearch :: "node \<Rightarrow> nodeStatus"
  distributeSearch :: "node \<Rightarrow> nodeStatus"
  evaluateFunctionsSearch :: "node \<Rightarrow> nodeStatus"

subsection \<open>\<^verbatim>\<open>addStep\<close> (lines 109 to 130)\<close>

text \<open>
  The array \<^verbatim>\<open>steps\<close> and the console are the state: \<open>addStep\<close> takes both and returns
  both. \<^verbatim>\<open>forEach\<close> over the sub-steps is a left fold whose accumulator is the array
  \<^verbatim>\<open>substeps\<close> (and the console); the record is pushed at the end of \<^verbatim>\<open>steps\<close>; with
  \<^verbatim>\<open>debug\<close> the tag and the printed new tree (followed by a line feed) are logged.
\<close>

function addStep ::
  "collab \<Rightarrow> stepRecord list \<times> console list \<Rightarrow> nodeStatus \<Rightarrow> bool \<Rightarrow>
     stepRecord list \<times> console list" where
  "addStep C (steps, out) nodeStatus debug =
     (let (substeps', out1) =
            (if substeps nodeStatus \<noteq> []
             then foldl (\<lambda>acc substepStatus. addStep C acc substepStatus debug)
                    ([], out) (substeps nodeStatus)
             else ([], out));
          steps' = steps @
            [StepRecord (changeType nodeStatus)
               (removeUnnecessaryParens C (oldNode nodeStatus) True)
               (removeUnnecessaryParens C (newNode nodeStatus) True)
               substeps'
               (print C (newNode nodeStatus) [])];
          out2 = (if debug
                  then out1 @ [Log (changeType nodeStatus),
                               Log (print C (newNode nodeStatus) [] @ [CHR 0x0A])]
                  else out1)
      in (steps', out2))"
  by pat_completeness auto

termination addStep
proof (relation "measure (\<lambda>(C, acc, nodeStatus, debug). size nodeStatus)")
  fix C :: collab and steps :: "stepRecord list" and out :: "console list"
    and nodeStatus x :: nodeStatus and debug :: bool and acc :: "stepRecord list \<times> console list"
  assume "x \<in> set (substeps nodeStatus)"
  then have "size x < size nodeStatus"
    by (cases nodeStatus) (auto simp: less_Suc_eq_le intro: size_list_estimation')
  then show "((C, acc, x, debug), (C, (steps, out), nodeStatus, debug))
      \<in> measure (\<lambda>(C, acc, nodeStatus, debug). size nodeStatus)"
    by simp
qed simp

subsection \<open>\<^verbatim>\<open>step\<close> (lines 60 to 105)\<close>

text \<open>The array of line 66: the nine searches, in the order the file lists them.\<close>

definition simplificationTreeSearches :: "collab \<Rightarrow> (node \<Rightarrow> nodeStatus) list" where
  "simplificationTreeSearches C =
     [simplifyBasicsSearch C,
      simplifyDivisionSearch C,
      simplifyFractionsSearch C,
      evaluateArithmeticSearch C,
      collectAndCombineSearch C,
      breakUpNumeratorSearch C,
      multiplyFractionsSearch C,
      distributeSearch C,
      evaluateFunctionsSearch C]"

text \<open>
  Lines 94 and 96 (or 101): the new tree of a search result has its unnecessary
  parentheses removed and is then flattened, whether the search changed anything or not.
\<close>

definition renormalize :: "collab \<Rightarrow> node \<Rightarrow> node" where
  "renormalize C node = flattenOperands C (removeUnnecessaryParens C node True)"

text \<open>
  The \<^verbatim>\<open>for\<close> loop of lines 89 to 103, as recursion over the searches still to try, and
  the \<^verbatim>\<open>return\<close> of line 104 when none is left.
\<close>

fun stepFor :: "collab \<Rightarrow> (node \<Rightarrow> nodeStatus) list \<Rightarrow> node \<Rightarrow> nodeStatus" where
  "stepFor C [] node = noChange node"
| "stepFor C (search # searches) node =
     (let nodeStatus = search node;
          node' = removeUnnecessaryParens C (newNode nodeStatus) True
      in if hasChanged nodeStatus
         then setNewNode nodeStatus (clone (flattenOperands C node'))
         else stepFor C searches (flattenOperands C node'))"

definition step :: "collab \<Rightarrow> node \<Rightarrow> nodeStatus" where
  "step C node =
     (let node1 = flattenOperands C node;
          node2 = removeUnnecessaryParens C node1 True
      in stepFor C (simplificationTreeSearches C) node2)"

subsection \<open>\<^verbatim>\<open>stepThroughExpression\<close> (lines 24 to 56)\<close>

definition MAX_STEP_COUNT :: nat where
  "MAX_STEP_COUNT = 20"

text \<open>Lines 45 and 46: the record is reset and the dispatcher runs on its new tree.\<close>

definition nextStatus :: "collab \<Rightarrow> nodeStatus \<Rightarrow> nodeStatus" where
  "nextStatus C nodeStatus = step C (newNode (reset C nodeStatus))"

definition loopError :: "string \<Rightarrow> console" where
  "loopError originalExpressionStr =
     Error (''Math error: Potential infinite loop for expression: '' @
            originalExpressionStr @ '', returning no steps'')"

text \<open>
  The \<^verbatim>\<open>while\<close> loop of lines 43 to 53. Its state is the counter \<^verbatim>\<open>iters\<close>, the array
  \<^verbatim>\<open>steps\<close> with the console, and \<^verbatim>\<open>nodeStatus\<close>. The loop does not bound the counter from
  above (it only tests \<^verbatim>\<open>iters++ === MAX_STEP_COUNT\<close>), so started from an arbitrary counter
  it need not return: the model is a partial function, and that the driver returns is a
  theorem. The result is the state at the exit: the steps returned (none at line 51), the
  console, and the last value of \<^verbatim>\<open>nodeStatus\<close>, which is the result of the last call of
  \<^verbatim>\<open>step\<close>.
\<close>

partial_function (option) stepLoop ::
  "collab \<Rightarrow> bool \<Rightarrow> string \<Rightarrow> nat \<Rightarrow> stepRecord list \<times> console list \<Rightarrow> nodeStatus \<Rightarrow>
     ((stepRecord list \<times> console list) \<times> nodeStatus) option" where
  "stepLoop C debug originalExpressionStr iters acc nodeStatus =
     (if hasChanged nodeStatus
      then (let acc' = addStep C acc nodeStatus debug;
                nodeStatus' = nextStatus C nodeStatus
            in if iters = MAX_STEP_COUNT
               then Some (([], snd acc' @ [loopError originalExpressionStr]), nodeStatus')
               else stepLoop C debug originalExpressionStr (iters + 1) acc' nodeStatus')
      else Some (acc, nodeStatus))"

text \<open>The console output of lines 25 to 28.\<close>

definition debugHeader :: "collab \<Rightarrow> node \<Rightarrow> bool \<Rightarrow> console list" where
  "debugHeader C node debug =
     (if debug
      then [Log ([CHR 0x0A, CHR 0x0A] @ ''Simplifying: '' @ print C node [False, True])]
      else [])"

definition stepThroughExpression ::
  "collab \<Rightarrow> node \<Rightarrow> bool \<Rightarrow> (stepRecord list \<times> console list) option" where
  "stepThroughExpression C node debug =
     (let out = debugHeader C node debug
      in if hasUnsupportedNodes C node
         then Some ([], out)
         else (let originalExpressionStr = print C node []
               in map_option fst
                    (stepLoop C debug originalExpressionStr 0 ([], out) (step C node))))"

section \<open>Vocabulary of the properties\<close>

text \<open>
  The definitions of this section are not functions of the file: they name what the
  theorems speak about.
\<close>

text \<open>
  The record \<open>addStep\<close> pushes for a change record, as a function of that record alone:
  the tag, both trees with unnecessary parentheses removed, the records of the sub-steps
  in their order, and the printed new tree.
\<close>

fun buildStep :: "collab \<Rightarrow> nodeStatus \<Rightarrow> stepRecord" where
  "buildStep C (NodeStatus ch ct old new subs) =
     StepRecord ct (removeUnnecessaryParens C old True) (removeUnnecessaryParens C new True)
       (map (buildStep C) subs) (print C new [])"

text \<open>The lines \<open>addStep\<close> logs for a change record when \<^verbatim>\<open>debug\<close> is set.\<close>

fun debugLines :: "collab \<Rightarrow> nodeStatus \<Rightarrow> console list" where
  "debugLines C (NodeStatus ch ct old new subs) =
     concat (map (debugLines C) subs) @ [Log ct, Log (print C new [] @ [CHR 0x0A])]"

definition debugOut :: "collab \<Rightarrow> bool \<Rightarrow> nodeStatus list \<Rightarrow> console list" where
  "debugOut C debug xs = (if debug then concat (map (debugLines C) xs) else [])"

text \<open>
  The first \<open>k\<close> values of the variable \<^verbatim>\<open>nodeStatus\<close> in the loop of the driver, from a
  given one: each next value is the dispatcher's result for the reset new tree of the
  value before (lines 45 and 46).
\<close>

fun dispatchCalls :: "collab \<Rightarrow> nodeStatus \<Rightarrow> nat \<Rightarrow> nodeStatus list" where
  "dispatchCalls C nodeStatus 0 = []"
| "dispatchCalls C nodeStatus (Suc k) =
     nodeStatus # dispatchCalls C (nextStatus C nodeStatus) k"

text \<open>The tree the first search receives (lines 63 and 64).\<close>

definition entryNode :: "collab \<Rightarrow> node \<Rightarrow> node" where
  "entryNode C node = removeUnnecessaryParens C (flattenOperands C node) True"

text \<open>
  \<open>noneChanged C searches node\<close>: tried in order from \<open>node\<close>, each of the searches reports
  no change on the tree it receives; \<open>probeNode C searches node\<close> is the tree the
  dispatcher then holds.
\<close>

fun noneChanged :: "collab \<Rightarrow> (node \<Rightarrow> nodeStatus) list \<Rightarrow> node \<Rightarrow> bool" where
  "noneChanged C [] node = True"
| "noneChanged C (search # searches) node =
     (\<not> hasChanged (search node) \<and>
      noneChanged C searches (renormalize C (newNode (search node))))"

fun probeNode :: "collab \<Rightarrow> (node \<Rightarrow> nodeStatus) list \<Rightarrow> node \<Rightarrow> node" where
  "probeNode C [] node = node"
| "probeNode C (search # searches) node =
     probeNode C searches (renormalize C (newNode (search node)))"

text \<open>
  \<open>rendersStored C r\<close>: the text of the record \<open>r\<close>, and of every record nested in it, is
  the printed form of the new tree the record stores.
\<close>

fun rendersStored :: "collab \<Rightarrow> stepRecord \<Rightarrow> bool" where
  "rendersStored C (StepRecord ct old new subs text) =
     (text = print C new [] \<and> list_all (rendersStored C) subs)"

section \<open>Collaborators for the worked examples\<close>

text \<open>
  Small implementations of the imported functions, used to run the theorems on concrete
  inputs. \<open>stripOuter\<close> removes the parentheses around a whole tree, \<open>render\<close> prints a tree
  with its parentheses, and in \<open>quiet\<close> no search ever changes anything.
\<close>

fun stripOuter :: "node \<Rightarrow> node" where
  "stripOuter (ParenthesisNode n) = stripOuter n"
| "stripOuter n = n"

fun render :: "node \<Rightarrow> string" where
  "render (ConstantNode i) = ''#''"
| "render (SymbolNode x) = x"
| "render (OperatorNode f args) = f"
| "render (FunctionNode f args) = f"
| "render (ParenthesisNode n) = ''('' @ render n @ '')''"

fun isFunctionNode :: "node \<Rightarrow> bool" where
  "isFunctionNode (FunctionNode f args) = True"
| "isFunctionNode n = False"

definition quiet :: collab where
  "quiet =
     \<lparr>hasUnsupportedNodes = isFunctionNode,
      flattenOperands = (\<lambda>n. n),
      removeUnnecessaryParens = (\<lambda>n flag. stripOuter n),
      print = (\<lambda>n args. render n),
      reset = (\<lambda>nodeStatus. nodeStatus),
      simplifyBasicsSearch = noChange,
      simplifyDivisionSearch = noChange,
      simplifyFractionsSearch = noChange,
      evaluateArithmeticSearch = noChange,
      collectAndCombineSearch = noChange,
      breakUpNumeratorSearch = noChange,
      multiplyFractionsSearch = noChange,
      distributeSearch = noChange,
      evaluateFunctionsSearch = noChange\<rparr>"

text \<open>A search that rewrites the symbol \<open>a\<close> to the symbol \<open>b\<close> under the tag \<open>tag\<close>.\<close>

definition rewriteSymbol :: "string \<Rightarrow> string \<Rightarrow> string \<Rightarrow> node \<Rightarrow> nodeStatus" where
  "rewriteSymbol tag a b n =
     (if n = SymbolNode a then NodeStatus True tag n (SymbolNode b) [] else noChange n)"

text \<open>The same rewrite, with the new symbol left in parentheses.\<close>

definition rewriteInParens :: "string \<Rightarrow> string \<Rightarrow> string \<Rightarrow> node \<Rightarrow> nodeStatus" where
  "rewriteInParens tag a b n =
     (if n = SymbolNode a then NodeStatus True tag n (ParenthesisNode (SymbolNode b)) []
      else noChange n)"

text \<open>The rewrite of \<open>rewriteSymbol\<close>, made without reporting a change.\<close>

definition silentSymbol :: "string \<Rightarrow> string \<Rightarrow> node \<Rightarrow> nodeStatus" where
  "silentSymbol a b n =
     (if n = SymbolNode a then NodeStatus False ''NO_CHANGE'' n (SymbolNode b) []
      else noChange n)"

text \<open>A search that never reports a change and wraps the tree in a call of \<open>f\<close>.\<close>

definition wrapIn :: "string \<Rightarrow> node \<Rightarrow> nodeStatus" where
  "wrapIn f n = noChange (FunctionNode f [n])"

text \<open>A search that counts a positive constant down by one; its measure is the constant.\<close>

fun countDown :: "node \<Rightarrow> nodeStatus" where
  "countDown (ConstantNode k) =
     (if 0 < k then NodeStatus True ''COUNT_DOWN'' (ConstantNode k) (ConstantNode (k - 1)) []
      else noChange (ConstantNode k))"
| "countDown n = noChange n"

fun constantMeasure :: "node \<Rightarrow> nat" where
  "constantMeasure (ConstantNode k) = nat k"
| "constantMeasure (ParenthesisNode n) = constantMeasure n"
| "constantMeasure n = 0"

text \<open>
  A search that evaluates \<open>2 + 2\<close> to \<open>(4)\<close>, still in parentheses, and explains it by
  one sub-step with the same new tree.
\<close>

definition twoPlusTwo :: node where
  "twoPlusTwo = OperatorNode ''+'' [ConstantNode 2, ConstantNode 2]"

definition addWithSubstep :: "node \<Rightarrow> nodeStatus" where
  "addWithSubstep n =
     (if n = twoPlusTwo
      then NodeStatus True ''SIMPLIFY_ARITHMETIC'' n (ParenthesisNode (ConstantNode 4))
             [NodeStatus True ''ADD'' n (ParenthesisNode (ConstantNode 4)) []]
      else noChange n)"

text \<open>The example of the spec: one search rewrites \<open>x\<close> to \<open>y\<close>, another \<open>y\<close> back to \<open>x\<close>.\<close>

definition oscillating :: collab where
  "oscillating =
     quiet\<lparr>simplifyBasicsSearch := rewriteSymbol ''A'' ''x'' ''y'',
           simplifyDivisionSearch := rewriteSymbol ''B'' ''y'' ''x''\<rparr>"

text \<open>
  Two searches that both match \<open>x\<close>: the third of the list, which returns \<open>(a)\<close>, and the
  fourth.
\<close>

definition conflicting :: collab where
  "conflicting =
     quiet\<lparr>simplifyFractionsSearch := rewriteInParens ''FRACTIONS'' ''x'' ''a'',
           evaluateArithmeticSearch := rewriteSymbol ''ARITHMETIC'' ''x'' ''b''\<rparr>"

definition silent :: collab where
  "silent = quiet\<lparr>simplifyBasicsSearch := silentSymbol ''x'' ''y''\<rparr>"

definition counting :: collab where
  "counting = quiet\<lparr>evaluateArithmeticSearch := countDown\<rparr>"

definition explaining :: collab where
  "explaining = quiet\<lparr>evaluateArithmeticSearch := addWithSubstep\<rparr>"

text \<open>Every search wraps the tree in a call named by its place in the list.\<close>

definition numbering :: collab where
  "numbering =
     quiet\<lparr>simplifyBasicsSearch := wrapIn ''1'',
           simplifyDivisionSearch := wrapIn ''2'',
           simplifyFractionsSearch := wrapIn ''3'',
           evaluateArithmeticSearch := wrapIn ''4'',
           collectAndCombineSearch := wrapIn ''5'',
           breakUpNumeratorSearch := wrapIn ''6'',
           multiplyFractionsSearch := wrapIn ''7'',
           distributeSearch := wrapIn ''8'',
           evaluateFunctionsSearch := wrapIn ''9''\<rparr>"

section \<open>Auxiliary facts\<close>

lemma hasChanged_noChange [simp]: "\<not> hasChanged (noChange node)"
  by (simp add: hasChanged_def noChange_def)

lemma changed_noChange [simp]: "\<not> changed (noChange node)"
  by (simp add: noChange_def)

lemma newNode_noChange [simp]: "newNode (noChange node) = node"
  by (simp add: noChange_def)

lemma hasChanged_setNewNode [simp]: "hasChanged (setNewNode ns node) = hasChanged ns"
  by (simp add: hasChanged_def setNewNode_def)

lemma newNode_setNewNode [simp]: "newNode (setNewNode ns node) = node"
  by (simp add: setNewNode_def)

lemma step_eq: "step C node = stepFor C (simplificationTreeSearches C) (entryNode C node)"
  by (simp add: step_def entryNode_def)

subsection \<open>\<open>addStep\<close>\<close>

declare addStep.simps [simp del]

lemma addStep_eq:
  "addStep C (steps, out) nodeStatus debug =
     (steps @ [buildStep C nodeStatus],
      out @ (if debug then debugLines C nodeStatus else []))"
proof (induction nodeStatus arbitrary: steps out)
  case (NodeStatus ch ct old new subs)
  have fold: "foldl (\<lambda>acc s. addStep C acc s debug) (ss, out') xs =
      (ss @ map (buildStep C) xs,
       out' @ (if debug then concat (map (debugLines C) xs) else []))"
    if "set xs \<subseteq> set subs" for xs ss out'
    using that
  proof (induction xs arbitrary: ss out')
    case Nil
    then show ?case by simp
  next
    case (Cons x xs)
    then show ?case by (simp add: NodeStatus.IH)
  qed
  show ?case
    by (subst addStep.simps) (simp add: fold)
qed

lemma debugOut_simps [simp]:
  "debugOut C d [] = []"
  "debugOut C d [x] @ debugOut C d xs = debugOut C d (x # xs)"
  "debugOut C d (xs @ ys) = debugOut C d xs @ debugOut C d ys"
  by (auto simp: debugOut_def)

lemma addStep_run:
  "addStep C (steps, out) ns d = (steps @ [buildStep C ns], out @ debugOut C d [ns])"
  by (simp add: addStep_eq debugOut_def)

subsection \<open>The loop of the driver\<close>

lemma stepLoop_stop:
  "\<not> hasChanged ns \<Longrightarrow> stepLoop C d s i acc ns = Some (acc, ns)"
  by (subst stepLoop.simps) simp

lemma stepLoop_overflow:
  "hasChanged ns \<Longrightarrow> i = MAX_STEP_COUNT \<Longrightarrow>
   stepLoop C d s i acc ns =
     Some (([], snd (addStep C acc ns d) @ [loopError s]), nextStatus C ns)"
  by (subst stepLoop.simps) (simp add: Let_def)

lemma stepLoop_continue:
  "hasChanged ns \<Longrightarrow> i \<noteq> MAX_STEP_COUNT \<Longrightarrow>
   stepLoop C d s i acc ns = stepLoop C d s (i + 1) (addStep C acc ns d) (nextStatus C ns)"
  by (subst stepLoop.simps) (simp add: Let_def)

lemma dispatchCalls_length [simp]: "length (dispatchCalls C ns k) = k"
  by (induction k arbitrary: ns) auto

lemma dispatchCalls_snoc:
  "dispatchCalls C ns (Suc k) = dispatchCalls C ns k @ [(nextStatus C ^^ k) ns]"
  by (induction k arbitrary: ns) (auto simp: funpow_swap1)

text \<open>While the values of \<^verbatim>\<open>nodeStatus\<close> report a change, the loop adds their records.\<close>

lemma stepLoop_unroll:
  "list_all hasChanged (dispatchCalls C ns k) \<Longrightarrow> i + k \<le> MAX_STEP_COUNT \<Longrightarrow>
   stepLoop C d s i (steps, out) ns =
     stepLoop C d s (i + k)
       (steps @ map (buildStep C) (dispatchCalls C ns k),
        out @ debugOut C d (dispatchCalls C ns k))
       ((nextStatus C ^^ k) ns)"
proof (induction k arbitrary: i steps out ns)
  case 0
  then show ?case by simp
next
  case (Suc k)
  from Suc.prems have ch: "hasChanged ns"
    and rest: "list_all hasChanged (dispatchCalls C (nextStatus C ns) k)"
    and i: "i \<noteq> MAX_STEP_COUNT" "(i + 1) + k \<le> MAX_STEP_COUNT"
    by auto
  show ?case
    using Suc.IH [OF rest i(2)]
    by (simp add: stepLoop_continue [OF ch i(1)] addStep_run funpow_swap1)
qed

text \<open>The two exits of the loop: a value that reports no change, and the bound.\<close>

lemma stepLoop_exit:
  assumes "list_all hasChanged (dispatchCalls C ns k)"
    and "\<not> hasChanged ((nextStatus C ^^ k) ns)"
    and "i + k \<le> MAX_STEP_COUNT"
  shows "stepLoop C d s i (steps, out) ns =
     Some ((steps @ map (buildStep C) (dispatchCalls C ns k),
            out @ debugOut C d (dispatchCalls C ns k)),
           (nextStatus C ^^ k) ns)"
  by (simp add: stepLoop_unroll [OF assms(1,3)] stepLoop_stop [OF assms(2)])

lemma stepLoop_bound_hit:
  assumes "list_all hasChanged (dispatchCalls C ns (Suc k))" and "i + k = MAX_STEP_COUNT"
  shows "stepLoop C d s i (steps, out) ns =
     Some (([], out @ debugOut C d (dispatchCalls C ns (Suc k)) @ [loopError s]),
           (nextStatus C ^^ Suc k) ns)"
proof -
  from assms(1) have a: "list_all hasChanged (dispatchCalls C ns k)"
    and b: "hasChanged ((nextStatus C ^^ k) ns)"
    by (simp_all add: dispatchCalls_snoc del: dispatchCalls.simps)
  from assms(2) have le: "i + k \<le> MAX_STEP_COUNT" by simp
  have e: "(nextStatus C ^^ Suc k) ns = nextStatus C ((nextStatus C ^^ k) ns)" by simp
  show ?thesis
    by (simp add: stepLoop_unroll [OF a le] stepLoop_overflow [OF b assms(2)] addStep_run
        dispatchCalls_snoc e del: dispatchCalls.simps funpow.simps)
qed

text \<open>One of the two exits is always taken when the counter starts within the bound.\<close>

lemma stepLoop_cases:
  assumes "i \<le> MAX_STEP_COUNT"
  shows "(\<exists>k. i + k \<le> MAX_STEP_COUNT \<and> list_all hasChanged (dispatchCalls C ns k) \<and>
            \<not> hasChanged ((nextStatus C ^^ k) ns))
         \<or> list_all hasChanged (dispatchCalls C ns (Suc (MAX_STEP_COUNT - i)))"
proof (cases "list_all hasChanged (dispatchCalls C ns (Suc (MAX_STEP_COUNT - i)))")
  case True
  then show ?thesis by blast
next
  case False
  have "\<exists>k<n. list_all hasChanged (dispatchCalls C ns k) \<and>
          \<not> hasChanged ((nextStatus C ^^ k) ns)"
    if "\<not> list_all hasChanged (dispatchCalls C ns n)" for n
    using that
  proof (induction n)
    case 0
    then show ?case by simp
  next
    case (Suc n)
    show ?case
    proof (cases "list_all hasChanged (dispatchCalls C ns n)")
      case True
      with Suc.prems have "\<not> hasChanged ((nextStatus C ^^ n) ns)"
        by (simp add: dispatchCalls_snoc del: dispatchCalls.simps)
      with True show ?thesis by blast
    next
      case False
      from Suc.IH [OF False] show ?thesis using less_Suc_eq by blast
    qed
  qed
  from this [OF False] obtain k where "k < Suc (MAX_STEP_COUNT - i)"
    "list_all hasChanged (dispatchCalls C ns k)" "\<not> hasChanged ((nextStatus C ^^ k) ns)"
    by blast
  with assms show ?thesis by (intro disjI1 exI [of _ k]) auto
qed

lemma stepThroughExpression_supported:
  "\<not> hasUnsupportedNodes C node \<Longrightarrow>
   stepThroughExpression C node debug =
     map_option fst
       (stepLoop C debug (print C node []) 0 ([], debugHeader C node debug) (step C node))"
  by (simp add: stepThroughExpression_def)

subsection \<open>The loop of the dispatcher\<close>

lemma stepFor_fire:
  "hasChanged (search n) \<Longrightarrow>
   stepFor C (search # later) n =
     setNewNode (search n)
       (flattenOperands C (removeUnnecessaryParens C (newNode (search n)) True))"
  by (simp add: clone_def Let_def)

lemma stepFor_pass:
  "\<not> hasChanged (search n) \<Longrightarrow>
   stepFor C (search # later) n = stepFor C later (renormalize C (newNode (search n)))"
  by (simp add: renormalize_def Let_def)

lemma stepFor_skip:
  "noneChanged C pre n \<Longrightarrow> stepFor C (pre @ rest) n = stepFor C rest (probeNode C pre n)"
  by (induction pre arbitrary: n) (simp_all add: renormalize_def Let_def)

lemma stepFor_none:
  "noneChanged C searches n \<Longrightarrow> stepFor C searches n = noChange (probeNode C searches n)"
  using stepFor_skip [of C searches n "[]"] by simp

subsection \<open>The driver as a whole\<close>

lemma stepLoop_returns:
  assumes "i \<le> MAX_STEP_COUNT"
  shows "\<exists>r ns'. stepLoop C d s i (steps, out) ns = Some (r, ns')
           \<and> (\<not> hasChanged ns' \<or> fst r = [])"
proof -
  from stepLoop_cases [OF assms, of C ns]
  consider k where "i + k \<le> MAX_STEP_COUNT" "list_all hasChanged (dispatchCalls C ns k)"
      "\<not> hasChanged ((nextStatus C ^^ k) ns)"
    | "list_all hasChanged (dispatchCalls C ns (Suc (MAX_STEP_COUNT - i)))"
    by blast
  then show ?thesis
  proof cases
    case 1
    from stepLoop_exit [OF 1(2,3,1)] 1(3) show ?thesis by blast
  next
    case 2
    from assms have "i + (MAX_STEP_COUNT - i) = MAX_STEP_COUNT" by simp
    from stepLoop_bound_hit [OF 2 this] show ?thesis by simp
  qed
qed

lemma stepThroughExpression_exit:
  assumes "\<not> hasUnsupportedNodes C node"
    and "list_all hasChanged (dispatchCalls C (step C node) k)"
    and "\<not> hasChanged ((nextStatus C ^^ k) (step C node))"
    and "k \<le> MAX_STEP_COUNT"
  shows "stepThroughExpression C node debug =
     Some (map (buildStep C) (dispatchCalls C (step C node) k),
           debugHeader C node debug @ debugOut C debug (dispatchCalls C (step C node) k))"
proof -
  from assms(4) have "0 + k \<le> MAX_STEP_COUNT" by simp
  from stepLoop_exit [OF assms(2,3) this] show ?thesis
    by (simp add: stepThroughExpression_supported [OF assms(1)])
qed

subsection \<open>A measure that the searches reduce\<close>

lemma stepFor_measure:
  fixes m :: "node \<Rightarrow> nat"
  assumes strict: "\<forall>search\<in>set searches. \<forall>n. hasChanged (search n) \<longrightarrow> m (newNode (search n)) < m n"
    and weak: "\<forall>search\<in>set searches. \<forall>n. \<not> hasChanged (search n) \<longrightarrow> m (newNode (search n)) \<le> m n"
    and norm: "\<forall>n. m (flattenOperands C n) \<le> m n \<and> m (removeUnnecessaryParens C n True) \<le> m n"
    and ch: "hasChanged (stepFor C searches n)"
  shows "m (newNode (stepFor C searches n)) < m n"
  using strict weak ch
proof (induction searches arbitrary: n)
  case Nil
  then show ?case by simp
next
  case (Cons search searches)
  have re: "m (renormalize C t) \<le> m t" for t
    using norm order_trans unfolding renormalize_def by blast
  show ?case
  proof (cases "hasChanged (search n)")
    case True
    with Cons.prems(1) have "m (newNode (search n)) < m n" by simp
    with re [of "newNode (search n)"] True show ?thesis
      by (simp add: stepFor_fire renormalize_def del: stepFor.simps)
  next
    case False
    with Cons.prems(2) have le: "m (newNode (search n)) \<le> m n" by simp
    from Cons.prems(3) False
    have "hasChanged (stepFor C searches (renormalize C (newNode (search n))))"
      by (simp add: stepFor_pass del: stepFor.simps)
    with Cons.IH [of "renormalize C (newNode (search n))"] Cons.prems(1,2)
    have "m (newNode (stepFor C searches (renormalize C (newNode (search n)))))
        < m (renormalize C (newNode (search n)))"
      by simp
    with re [of "newNode (search n)"] le False show ?thesis
      by (simp add: stepFor_pass del: stepFor.simps)
  qed
qed

lemma step_measure:
  fixes m :: "node \<Rightarrow> nat"
  assumes "\<forall>search\<in>set (simplificationTreeSearches C).
             \<forall>n. hasChanged (search n) \<longrightarrow> m (newNode (search n)) < m n"
    and "\<forall>search\<in>set (simplificationTreeSearches C).
             \<forall>n. \<not> hasChanged (search n) \<longrightarrow> m (newNode (search n)) \<le> m n"
    and norm: "\<forall>n. m (flattenOperands C n) \<le> m n \<and> m (removeUnnecessaryParens C n True) \<le> m n"
    and rst: "\<forall>ns. m (newNode (reset C ns)) \<le> m (newNode ns)"
    and ch: "hasChanged (step C n)"
  shows "m (newNode (reset C (step C n))) < m n"
proof -
  from ch have "hasChanged (stepFor C (simplificationTreeSearches C) (entryNode C n))"
    by (simp add: step_eq)
  from stepFor_measure [OF assms(1,2) norm this]
  have "m (newNode (step C n)) < m (entryNode C n)"
    by (simp add: step_eq)
  moreover have "m (entryNode C n) \<le> m n"
    using norm order_trans unfolding entryNode_def by blast
  moreover have "m (newNode (reset C (step C n))) \<le> m (newNode (step C n))"
    using rst by simp
  ultimately show ?thesis by simp
qed

text \<open>With such a measure the dispatcher stops reporting changes after at most \<open>m n\<close> calls.\<close>

lemma dispatchCalls_measure:
  fixes m :: "node \<Rightarrow> nat"
  assumes H: "\<And>n. hasChanged (step C n) \<Longrightarrow> m (newNode (reset C (step C n))) < m n"
  shows "\<exists>k\<le>m n. list_all hasChanged (dispatchCalls C (step C n) k)
           \<and> \<not> hasChanged ((nextStatus C ^^ k) (step C n))"
proof (induction "m n" arbitrary: n rule: less_induct)
  case less
  show ?case
  proof (cases "hasChanged (step C n)")
    case False
    then show ?thesis by (intro exI [of _ 0]) simp
  next
    case True
    let ?n' = "newNode (reset C (step C n))"
    from H [OF True] have lt: "m ?n' < m n" .
    from less [OF lt] obtain k where k: "k \<le> m ?n'"
      "list_all hasChanged (dispatchCalls C (step C ?n') k)"
      "\<not> hasChanged ((nextStatus C ^^ k) (step C ?n'))"
      by blast
    have following: "nextStatus C (step C n) = step C ?n'"
      by (simp add: nextStatus_def)
    from k lt True following show ?thesis
      by (intro exI [of _ "Suc k"]) (simp add: funpow_swap1)
  qed
qed

subsection \<open>The tree the dispatcher ends with\<close>

lemma probeNode_fixed:
  assumes "renormalize C n = n" and "\<forall>search\<in>set searches. newNode (search n) = n"
  shows "probeNode C searches n = n"
  using assms by (induction searches) simp_all

subsection \<open>The collaborators of the examples\<close>

text \<open>The definitions to unfold when an example is computed.\<close>

lemmas example_defs =
  quiet_def oscillating_def conflicting_def silent_def counting_def explaining_def
  numbering_def rewriteSymbol_def rewriteInParens_def silentSymbol_def wrapIn_def
  addWithSubstep_def
  twoPlusTwo_def

lemmas driver_defs =
  step_def nextStatus_def hasChanged_def noChange_def setNewNode_def clone_def
  simplificationTreeSearches_def Let_def

lemma stripOuter_idem [simp]: "stripOuter (stripOuter n) = stripOuter n"
  by (induction n) simp_all

lemma constantMeasure_stripOuter [simp]: "constantMeasure (stripOuter n) = constantMeasure n"
  by (induction n) simp_all

lemma countDown_reduces:
  "hasChanged (countDown n) \<Longrightarrow> constantMeasure (newNode (countDown n)) < constantMeasure n"
  by (cases n) (auto simp: hasChanged_def noChange_def split: if_splits)

lemma countDown_keeps: "\<not> hasChanged (countDown n) \<Longrightarrow> newNode (countDown n) = n"
  by (cases n) (auto simp: hasChanged_def noChange_def split: if_splits)

section \<open>The claims\<close>

text \<open>
  C1. For every input tree, when the bound of 20 iterations of the driver's loop is
  exceeded (the first 21 calls of the dispatcher all report a change), the driver returns
  normally, with the empty sequence in place of the 21 records built so far, and the last
  thing written to the console is the advisory \<^verbatim>\<open>console.error\<close> message.
\<close>

theorem stepThroughExpression_bound_exceeded:
  assumes "\<not> hasUnsupportedNodes C node"
    and "list_all hasChanged (dispatchCalls C (step C node) (Suc MAX_STEP_COUNT))"
  shows "stepThroughExpression C node debug =
     Some ([], debugHeader C node debug
               @ debugOut C debug (dispatchCalls C (step C node) (Suc MAX_STEP_COUNT))
               @ [loopError (print C node [])])"
  using stepLoop_bound_hit [OF assms(2), of 0 debug "print C node []" "[]"
      "debugHeader C node debug"]
  by (simp add: stepThroughExpression_supported [OF assms(1)] del: dispatchCalls.simps)

theorem stepThroughExpression_bound_exceeded_witness:
  "\<not> hasUnsupportedNodes oscillating (SymbolNode ''x'')
   \<and> list_all hasChanged
       (dispatchCalls oscillating (step oscillating (SymbolNode ''x'')) (Suc MAX_STEP_COUNT))
   \<and> stepThroughExpression oscillating (SymbolNode ''x'') False
       = Some ([], [Error (''Math error: Potential infinite loop for expression: x''
                           @ '', returning no steps'')])"
proof -
  have h1: "\<not> hasUnsupportedNodes oscillating (SymbolNode ''x'')"
    by (simp add: example_defs)
  have h2: "list_all hasChanged
      (dispatchCalls oscillating (step oscillating (SymbolNode ''x'')) (Suc MAX_STEP_COUNT))"
    by (simp add: MAX_STEP_COUNT_def eval_nat_numeral example_defs driver_defs)
  show ?thesis
    using h1 h2 stepThroughExpression_bound_exceeded [OF h1 h2, of False]
    by (simp add: debugHeader_def debugOut_def loopError_def example_defs)
qed

text \<open>
  C5. For every input tree that has unsupported nodes, the driver returns the empty
  sequence: the return of line 31 is a normal return, taken before the dispatcher is
  called, and nothing is raised.
\<close>

theorem stepThroughExpression_unsupported:
  "hasUnsupportedNodes C node \<Longrightarrow>
   stepThroughExpression C node debug = Some ([], debugHeader C node debug)"
  by (simp add: stepThroughExpression_def)

theorem stepThroughExpression_unsupported_witness:
  "hasUnsupportedNodes quiet (FunctionNode ''f'' [SymbolNode ''x''])
   \<and> stepThroughExpression quiet (FunctionNode ''f'' [SymbolNode ''x'']) False = Some ([], [])"
proof -
  have h: "hasUnsupportedNodes quiet (FunctionNode ''f'' [SymbolNode ''x''])"
    by (simp add: example_defs)
  show ?thesis
    using h stepThroughExpression_unsupported [OF h, of False]
    by (simp add: debugHeader_def)
qed

text \<open>
  C10. The flag \<^verbatim>\<open>debug\<close> does not affect the returned value: for every input tree the
  driver returns the same sequence of step records with \<^verbatim>\<open>debug\<close> set and unset; only the
  console differs.
\<close>

theorem stepThroughExpression_debug_irrelevant:
  "map_option fst (stepThroughExpression C node True)
     = map_option fst (stepThroughExpression C node False)"
proof (cases "hasUnsupportedNodes C node")
  case True
  then show ?thesis by (simp add: stepThroughExpression_def)
next
  case False
  note supported = stepThroughExpression_supported [OF False]
  from stepLoop_cases [of 0 C "step C node"]
  consider k where "0 + k \<le> MAX_STEP_COUNT"
      "list_all hasChanged (dispatchCalls C (step C node) k)"
      "\<not> hasChanged ((nextStatus C ^^ k) (step C node))"
    | "list_all hasChanged (dispatchCalls C (step C node) (Suc MAX_STEP_COUNT))"
    by auto
  then show ?thesis
  proof cases
    case 1
    show ?thesis
      by (simp add: supported stepLoop_exit [OF 1(2,3,1)])
  next
    case 2
    have "0 + MAX_STEP_COUNT = MAX_STEP_COUNT" by simp
    from stepLoop_bound_hit [OF 2 this] show ?thesis
      by (simp add: supported del: dispatchCalls.simps funpow.simps)
  qed
qed

text \<open>
  C7. For every change record, \<open>addStep\<close> pushes one record at the end of \<^verbatim>\<open>steps\<close>. It
  carries the tag of the change record; its old and its new tree are those of the change
  record passed through \<^verbatim>\<open>removeUnnecessaryParens\<close>; and its sub-steps are the records
  that \<open>addStep\<close> itself builds, from an empty array, for the sub-steps of the change
  record, one for each and in their order, each with its own nested sub-steps complete.
\<close>

theorem addStep_builds_record:
  "\<exists>r. fst (addStep C (steps, out) nodeStatus debug) = steps @ [r]
     \<and> stepChangeType r = changeType nodeStatus
     \<and> stepOldNode r = removeUnnecessaryParens C (oldNode nodeStatus) True
     \<and> stepNewNode r = removeUnnecessaryParens C (newNode nodeStatus) True
     \<and> stepSubsteps r
         = concat (map (\<lambda>sub. fst (addStep C ([], []) sub debug)) (substeps nodeStatus))
     \<and> length (stepSubsteps r) = length (substeps nodeStatus)"
  by (cases nodeStatus) (simp add: addStep_eq)

text \<open>
  C3. For every input tree, when the searches before some search of the list all report no
  change on the trees they receive and that search reports a change, the dispatcher
  returns the record of that search: the flag, the tag, the old tree and the sub-steps are
  those the search returned, and the new tree is the one the search returned with its
  unnecessary parentheses removed (and then flattened). The searches after it are not
  called, so the result is the same whatever stands after it in the list. When no search
  of the list reports a change, the dispatcher returns a record that reports no change,
  has no sub-steps, and wraps the tree the dispatcher holds at the end.
\<close>

theorem step_first_match_wins:
  assumes "simplificationTreeSearches C = pre @ search # post"
  shows "(noneChanged C pre (entryNode C node)
          \<and> hasChanged (search (probeNode C pre (entryNode C node)))
          \<longrightarrow> step C node
                = NodeStatus
                    (changed (search (probeNode C pre (entryNode C node))))
                    (changeType (search (probeNode C pre (entryNode C node))))
                    (oldNode (search (probeNode C pre (entryNode C node))))
                    (flattenOperands C
                      (removeUnnecessaryParens C
                        (newNode (search (probeNode C pre (entryNode C node)))) True))
                    (substeps (search (probeNode C pre (entryNode C node))))
            \<and> hasChanged (step C node)
            \<and> newNode (step C node)
                = flattenOperands C
                    (removeUnnecessaryParens C
                      (newNode (search (probeNode C pre (entryNode C node)))) True)
            \<and> stepFor C (pre @ search # later) (entryNode C node) = step C node)
         \<and> (noneChanged C (simplificationTreeSearches C) (entryNode C node)
            \<longrightarrow> step C node
                = noChange (probeNode C (simplificationTreeSearches C) (entryNode C node))
            \<and> \<not> hasChanged (step C node)
            \<and> substeps (step C node) = []
            \<and> newNode (step C node)
                = probeNode C (simplificationTreeSearches C) (entryNode C node))"
proof (intro conjI impI)
  assume a: "noneChanged C pre (entryNode C node)
      \<and> hasChanged (search (probeNode C pre (entryNode C node)))"
  let ?r = "search (probeNode C pre (entryNode C node))"
  let ?t = "flattenOperands C (removeUnnecessaryParens C (newNode ?r) True)"
  have fire: "stepFor C (pre @ search # rest) (entryNode C node) = setNewNode ?r ?t" for rest
    using a by (simp add: stepFor_skip stepFor_fire del: stepFor.simps)
  from fire [of post] have st: "step C node = setNewNode ?r ?t"
    by (simp add: step_eq assms)
  show "step C node
      = NodeStatus (changed ?r) (changeType ?r) (oldNode ?r) ?t (substeps ?r)"
    by (simp add: st setNewNode_def)
  show "hasChanged (step C node)"
    using a by (simp add: st)
  show "newNode (step C node) = ?t"
    by (simp add: st)
  show "stepFor C (pre @ search # later) (entryNode C node) = step C node"
    by (simp add: fire st)
next
  assume "noneChanged C (simplificationTreeSearches C) (entryNode C node)"
  then have st: "step C node
      = noChange (probeNode C (simplificationTreeSearches C) (entryNode C node))"
    by (simp add: step_eq stepFor_none)
  show "step C node
      = noChange (probeNode C (simplificationTreeSearches C) (entryNode C node))"
    by (rule st)
  show "\<not> hasChanged (step C node)"
    by (simp add: st)
  show "substeps (step C node) = []"
    by (simp add: st noChange_def)
  show "newNode (step C node)
      = probeNode C (simplificationTreeSearches C) (entryNode C node)"
    by (simp add: st)
qed

text \<open>
  In \<open>conflicting\<close> the third search returns \<open>(a)\<close> for \<open>x\<close>: the dispatcher returns that
  search's record with the new tree \<open>a\<close>, and the fourth search, which would give \<open>b\<close>, has
  no part in it.
\<close>

theorem step_first_match_wins_witness:
  "simplificationTreeSearches conflicting
     = [noChange, noChange] @ rewriteInParens ''FRACTIONS'' ''x'' ''a''
         # [rewriteSymbol ''ARITHMETIC'' ''x'' ''b'', noChange, noChange, noChange, noChange,
            noChange]
   \<and> noneChanged conflicting [noChange, noChange] (entryNode conflicting (SymbolNode ''x''))
   \<and> rewriteInParens ''FRACTIONS'' ''x'' ''a''
        (probeNode conflicting [noChange, noChange] (entryNode conflicting (SymbolNode ''x'')))
       = NodeStatus True ''FRACTIONS'' (SymbolNode ''x'') (ParenthesisNode (SymbolNode ''a'')) []
   \<and> step conflicting (SymbolNode ''x'')
       = NodeStatus True ''FRACTIONS'' (SymbolNode ''x'') (SymbolNode ''a'') []
   \<and> newNode (step conflicting (SymbolNode ''x'')) = SymbolNode ''a''
   \<and> stepFor conflicting ([noChange, noChange] @ rewriteInParens ''FRACTIONS'' ''x'' ''a'' # [])
        (entryNode conflicting (SymbolNode ''x''))
       = step conflicting (SymbolNode ''x'')
   \<and> noneChanged quiet (simplificationTreeSearches quiet)
        (entryNode quiet (ParenthesisNode (SymbolNode ''x'')))
   \<and> step quiet (ParenthesisNode (SymbolNode ''x'')) = noChange (SymbolNode ''x'')
   \<and> newNode (step quiet (ParenthesisNode (SymbolNode ''x''))) = SymbolNode ''x''"
proof -
  have split: "simplificationTreeSearches conflicting
     = [noChange, noChange] @ rewriteInParens ''FRACTIONS'' ''x'' ''a''
         # [rewriteSymbol ''ARITHMETIC'' ''x'' ''b'', noChange, noChange, noChange, noChange,
            noChange]"
    by (simp add: simplificationTreeSearches_def example_defs)
  have none: "noneChanged conflicting [noChange, noChange]
      (entryNode conflicting (SymbolNode ''x''))"
    by (simp add: entryNode_def renormalize_def example_defs)
  have returned: "rewriteInParens ''FRACTIONS'' ''x'' ''a''
        (probeNode conflicting [noChange, noChange] (entryNode conflicting (SymbolNode ''x'')))
       = NodeStatus True ''FRACTIONS'' (SymbolNode ''x'') (ParenthesisNode (SymbolNode ''a'')) []"
    by (simp add: entryNode_def renormalize_def example_defs)
  have fires: "hasChanged (rewriteInParens ''FRACTIONS'' ''x'' ''a''
      (probeNode conflicting [noChange, noChange] (entryNode conflicting (SymbolNode ''x''))))"
    unfolding returned by (simp add: hasChanged_def)
  have strip: "flattenOperands conflicting
      (removeUnnecessaryParens conflicting (ParenthesisNode (SymbolNode ''a'')) True)
      = SymbolNode ''a''"
    by (simp add: example_defs)
  have split': "simplificationTreeSearches quiet
     = [] @ noChange # [noChange, noChange, noChange, noChange, noChange, noChange, noChange,
         noChange]"
    by (simp add: simplificationTreeSearches_def example_defs)
  have none': "noneChanged quiet (simplificationTreeSearches quiet)
      (entryNode quiet (ParenthesisNode (SymbolNode ''x'')))"
    by (simp add: simplificationTreeSearches_def entryNode_def renormalize_def example_defs)
  have last': "probeNode quiet (simplificationTreeSearches quiet)
      (entryNode quiet (ParenthesisNode (SymbolNode ''x''))) = SymbolNode ''x''"
    by (simp add: simplificationTreeSearches_def entryNode_def renormalize_def example_defs)
  note fired =
    step_first_match_wins [OF split, of "SymbolNode ''x''" "[]",
      THEN conjunct1, THEN mp, OF conjI [OF none fires]]
  from fired [unfolded returned]
  have first: "step conflicting (SymbolNode ''x'')
        = NodeStatus True ''FRACTIONS'' (SymbolNode ''x'') (SymbolNode ''a'') []"
      "newNode (step conflicting (SymbolNode ''x'')) = SymbolNode ''a''"
      "stepFor conflicting
         ([noChange, noChange] @ rewriteInParens ''FRACTIONS'' ''x'' ''a'' # [])
         (entryNode conflicting (SymbolNode ''x''))
       = step conflicting (SymbolNode ''x'')"
    by (simp_all add: strip del: stepFor.simps probeNode.simps)
  note unfired =
    step_first_match_wins [OF split', of "ParenthesisNode (SymbolNode ''x'')" "[]",
      THEN conjunct2, THEN mp, OF none']
  from unfired [unfolded last']
  have second: "step quiet (ParenthesisNode (SymbolNode ''x'')) = noChange (SymbolNode ''x'')"
      "newNode (step quiet (ParenthesisNode (SymbolNode ''x''))) = SymbolNode ''x''"
    by simp_all
  from split none returned first second none' show ?thesis
    by simp
qed

text \<open>
  C9. When a search reports no change, the dispatcher goes on with the tree that search
  returned (unnecessary parentheses removed, then flattened), not with the tree the search
  was given: the remaining searches run on it, and when none of them reports a change
  either, the no-change record of the dispatcher is built from it.
\<close>

theorem step_adopts_unreported_tree:
  assumes "simplificationTreeSearches C = pre @ search # post"
    and "noneChanged C pre (entryNode C node)"
    and "\<not> hasChanged (search (probeNode C pre (entryNode C node)))"
  shows "step C node
           = stepFor C post
               (flattenOperands C
                 (removeUnnecessaryParens C
                   (newNode (search (probeNode C pre (entryNode C node)))) True))
         \<and> (noneChanged C post
               (flattenOperands C
                 (removeUnnecessaryParens C
                   (newNode (search (probeNode C pre (entryNode C node)))) True))
            \<longrightarrow> step C node
                = noChange (probeNode C post
                    (flattenOperands C
                      (removeUnnecessaryParens C
                        (newNode (search (probeNode C pre (entryNode C node)))) True))))"
  using assms(2,3)
  by (simp add: step_eq assms(1) stepFor_skip stepFor_pass stepFor_none renormalize_def
      del: stepFor.simps noneChanged.simps probeNode.simps)

theorem step_adopts_unreported_tree_witness:
  "simplificationTreeSearches silent
     = [] @ silentSymbol ''x'' ''y''
         # [noChange, noChange, noChange, noChange, noChange, noChange, noChange, noChange]
   \<and> noneChanged silent [] (entryNode silent (SymbolNode ''x''))
   \<and> \<not> hasChanged (silentSymbol ''x'' ''y''
          (probeNode silent [] (entryNode silent (SymbolNode ''x''))))
   \<and> entryNode silent (SymbolNode ''x'') = SymbolNode ''x''
   \<and> step silent (SymbolNode ''x'') = noChange (SymbolNode ''y'')"
proof -
  have split: "simplificationTreeSearches silent
     = [] @ silentSymbol ''x'' ''y''
         # [noChange, noChange, noChange, noChange, noChange, noChange, noChange, noChange]"
    by (simp add: simplificationTreeSearches_def example_defs)
  have none: "noneChanged silent [] (entryNode silent (SymbolNode ''x''))"
    by simp
  have quiet: "\<not> hasChanged (silentSymbol ''x'' ''y''
      (probeNode silent [] (entryNode silent (SymbolNode ''x''))))"
    by (simp add: entryNode_def hasChanged_def example_defs)
  show ?thesis
    using split none quiet step_adopts_unreported_tree [OF split none quiet]
    by (simp add: entryNode_def renormalize_def example_defs)
qed



text \<open>
  C8. For every step record the driver returns, and every record nested in one, the text
  of the record should be the printed form of the new tree that the record stores. The
  file keeps this for a record of the top level, whose new tree \<open>step\<close> has already
  normalised (lines 94 to 97) before \<open>addStep\<close> prints it, and misses it for a nested
  record: line 121 prints the new tree of the sub-step as the search left it, while line
  119 stores that tree without its unnecessary parentheses. In \<open>explaining\<close> the search
  returns \<open>(4)\<close> both as its own new tree and as the new tree of its sub-step. Both records
  store \<open>4\<close>; the text of the outer record is that of \<open>4\<close>, the text of the nested record is
  that of \<open>(4)\<close>.
\<close>

theorem asciimath_of_nested_step_unstripped:
  "stepThroughExpression explaining twoPlusTwo False
     = Some ([StepRecord ''SIMPLIFY_ARITHMETIC'' twoPlusTwo (ConstantNode 4)
                [StepRecord ''ADD'' twoPlusTwo (ConstantNode 4) [] ''(#)''] ''#''], [])
   \<and> print explaining (ConstantNode 4) [] = ''#''
   \<and> asciimath (StepRecord ''ADD'' twoPlusTwo (ConstantNode 4) [] ''(#)'')
       \<noteq> print explaining
           (stepNewNode (StepRecord ''ADD'' twoPlusTwo (ConstantNode 4) [] ''(#)'')) []
   \<and> \<not> list_all (rendersStored explaining)
        [StepRecord ''SIMPLIFY_ARITHMETIC'' twoPlusTwo (ConstantNode 4)
           [StepRecord ''ADD'' twoPlusTwo (ConstantNode 4) [] ''(#)''] ''#'']"
proof -
  have run: "stepThroughExpression explaining twoPlusTwo False
     = Some ([StepRecord ''SIMPLIFY_ARITHMETIC'' twoPlusTwo (ConstantNode 4)
                [StepRecord ''ADD'' twoPlusTwo (ConstantNode 4) [] ''(#)''] ''#''], [])"
    using stepThroughExpression_exit [of explaining twoPlusTwo 1 False]
    by (simp add: MAX_STEP_COUNT_def debugHeader_def debugOut_def example_defs driver_defs)
  have printed: "print explaining (ConstantNode 4) [] = ''#''"
    by (simp add: example_defs)
  show ?thesis
    by (simp add: run printed)
qed

text \<open>
  C6, as the file has it. For every input tree on which no search reports a change, the
  driver returns the empty sequence, and the loop ends at once with the no-change record of
  the dispatcher. The tree of that record is the input with unnecessary parentheses removed
  and flattened, passed through each search's returned tree in turn; it is the input tree
  itself when the normalisers leave the input as it is and each search returns the tree it
  is given.
\<close>

theorem stepThroughExpression_no_change:
  assumes "noneChanged C (simplificationTreeSearches C) (entryNode C node)"
  shows "stepThroughExpression C node debug = Some ([], debugHeader C node debug)
     \<and> stepLoop C debug s 0 acc (step C node)
         = Some (acc, noChange (probeNode C (simplificationTreeSearches C) (entryNode C node)))
     \<and> (entryNode C node = node \<and> renormalize C node = node
          \<and> (\<forall>search\<in>set (simplificationTreeSearches C). newNode (search node) = node)
        \<longrightarrow> probeNode C (simplificationTreeSearches C) (entryNode C node) = node)"
proof -
  from assms have st: "step C node
      = noChange (probeNode C (simplificationTreeSearches C) (entryNode C node))"
    by (simp add: step_eq stepFor_none)
  have "stepLoop C debug s' 0 acc' (step C node) = Some (acc', step C node)" for s' acc'
    by (rule stepLoop_stop) (simp add: st)
  then show ?thesis
    by (simp add: stepThroughExpression_def Let_def st [symmetric] probeNode_fixed)
qed

theorem stepThroughExpression_no_change_witness:
  "noneChanged quiet (simplificationTreeSearches quiet) (entryNode quiet (SymbolNode ''x''))
   \<and> stepThroughExpression quiet (SymbolNode ''x'') False = Some ([], [])
   \<and> stepLoop quiet False ''x'' 0 ([], []) (step quiet (SymbolNode ''x''))
       = Some (([], []), noChange (SymbolNode ''x''))"
proof -
  have none: "noneChanged quiet (simplificationTreeSearches quiet)
      (entryNode quiet (SymbolNode ''x''))"
    by (simp add: simplificationTreeSearches_def entryNode_def renormalize_def example_defs)
  have fixed: "entryNode quiet (SymbolNode ''x'') = SymbolNode ''x''
      \<and> renormalize quiet (SymbolNode ''x'') = SymbolNode ''x''
      \<and> (\<forall>search\<in>set (simplificationTreeSearches quiet).
            newNode (search (SymbolNode ''x'')) = SymbolNode ''x'')"
    by (simp add: simplificationTreeSearches_def entryNode_def renormalize_def example_defs)
  show ?thesis
    using none fixed
      stepThroughExpression_no_change [OF none, of False "''x''" "([], [])"]
    by (simp add: debugHeader_def)
qed

text \<open>
  The claim as it stands fails: in \<open>silent\<close> the first search turns \<open>x\<close> into \<open>y\<close> without
  reporting a change. On the input \<open>x\<close>, which the normalisers leave as it is, no search
  reports a change and the driver returns the empty sequence, but the tree it ends with
  is \<open>y\<close>.
\<close>

theorem tree_unchanged_counterexample:
  "noneChanged silent (simplificationTreeSearches silent) (entryNode silent (SymbolNode ''x''))
   \<and> entryNode silent (SymbolNode ''x'') = SymbolNode ''x''
   \<and> stepThroughExpression silent (SymbolNode ''x'') False = Some ([], [])
   \<and> stepLoop silent False ''x'' 0 ([], []) (step silent (SymbolNode ''x''))
       = Some (([], []), noChange (SymbolNode ''y''))
   \<and> newNode (noChange (SymbolNode ''y'')) \<noteq> SymbolNode ''x''"
proof -
  have none: "noneChanged silent (simplificationTreeSearches silent)
      (entryNode silent (SymbolNode ''x''))"
    by (simp add: simplificationTreeSearches_def entryNode_def renormalize_def hasChanged_def
        example_defs)
  have entry: "entryNode silent (SymbolNode ''x'') = SymbolNode ''x''"
    by (simp add: entryNode_def example_defs)
  have supported: "\<not> hasUnsupportedNodes silent (SymbolNode ''x'')"
    by (simp add: example_defs)
  have st: "step silent (SymbolNode ''x'') = noChange (SymbolNode ''y'')"
    by (simp add: example_defs driver_defs)
  have loop: "stepLoop silent False s 0 ([], []) (noChange (SymbolNode ''y''))
      = Some (([], []), noChange (SymbolNode ''y''))" for s
    by (rule stepLoop_stop) simp
  from none entry supported loop show ?thesis
    by (simp add: st stepThroughExpression_def debugHeader_def)
qed

text \<open>
  C2, as the file has it. Let \<open>m\<close> be a measure of trees in the natural numbers that every
  search strictly reduces when it reports a change, and that no search, normaliser or
  \<^verbatim>\<open>reset\<close> increases otherwise. Then the driver returns (as it does for every set of
  searches, because of the bound); the loop ends with a dispatcher result that reports no
  change, or else with the empty sequence at the bound; and when the measure of the input
  is at most 20 it ends with a result that reports no change, after at most as many steps
  as the measure of the input.
\<close>

theorem stepThroughExpression_terminates:
  fixes m :: "node \<Rightarrow> nat"
  assumes "\<forall>search\<in>set (simplificationTreeSearches C).
             \<forall>n. hasChanged (search n) \<longrightarrow> m (newNode (search n)) < m n"
    and "\<forall>search\<in>set (simplificationTreeSearches C).
             \<forall>n. \<not> hasChanged (search n) \<longrightarrow> m (newNode (search n)) \<le> m n"
    and "\<forall>n. m (flattenOperands C n) \<le> m n \<and> m (removeUnnecessaryParens C n True) \<le> m n"
    and "\<forall>ns. m (newNode (reset C ns)) \<le> m (newNode ns)"
  shows "(\<exists>r. stepThroughExpression C node debug = Some r)
     \<and> (\<exists>r ns. stepLoop C debug s 0 acc (step C node) = Some (r, ns)
           \<and> (\<not> hasChanged ns \<or> fst r = [])
           \<and> (m node \<le> MAX_STEP_COUNT
              \<longrightarrow> \<not> hasChanged ns \<and> length (fst r) \<le> length (fst acc) + m node))"
proof -
  obtain steps out where acc: "acc = (steps, out)" by (cases acc)
  have returns: "\<exists>r ns. stepLoop C debug s' 0 (steps', out') (step C node) = Some (r, ns)
      \<and> (\<not> hasChanged ns \<or> fst r = [])" for s' steps' out'
    by (rule stepLoop_returns) simp
  have first: "\<exists>r. stepThroughExpression C node debug = Some r"
  proof (cases "hasUnsupportedNodes C node")
    case True
    then show ?thesis by (simp add: stepThroughExpression_def)
  next
    case False
    from returns [of "print C node []" "[]" "debugHeader C node debug"] show ?thesis
      by (auto simp: stepThroughExpression_supported [OF False])
  qed
  from returns [of s steps out] obtain r ns
    where r: "stepLoop C debug s 0 (steps, out) (step C node) = Some (r, ns)"
      and exit: "\<not> hasChanged ns \<or> fst r = []"
    by blast
  have "\<not> hasChanged ns \<and> length (fst r) \<le> length steps + m node"
    if small: "m node \<le> MAX_STEP_COUNT"
  proof -
    from dispatchCalls_measure [of C m node] step_measure [OF assms]
    obtain k where k: "k \<le> m node" "list_all hasChanged (dispatchCalls C (step C node) k)"
      "\<not> hasChanged ((nextStatus C ^^ k) (step C node))"
      by blast
    from k(1) small have "0 + k \<le> MAX_STEP_COUNT" by simp
    from stepLoop_exit [OF k(2,3) this, of debug s steps out] r k(1,3)
    show ?thesis by auto
  qed
  with first r exit show ?thesis
    unfolding acc by auto
qed

theorem stepThroughExpression_terminates_witness:
  "constantMeasure (ConstantNode 3) \<le> MAX_STEP_COUNT
   \<and> (\<exists>r. stepThroughExpression counting (ConstantNode 3) False = Some r)
   \<and> (\<exists>r ns. stepLoop counting False ''#'' 0 ([], []) (step counting (ConstantNode 3))
                = Some (r, ns)
         \<and> \<not> hasChanged ns \<and> length (fst r) \<le> 3)"
proof -
  have searches: "set (simplificationTreeSearches counting) = {noChange, countDown}"
    by (auto simp: simplificationTreeSearches_def example_defs)
  have h1: "\<forall>search\<in>set (simplificationTreeSearches counting).
      \<forall>n. hasChanged (search n)
        \<longrightarrow> constantMeasure (newNode (search n)) < constantMeasure n"
    by (simp add: searches countDown_reduces)
  have h2: "\<forall>search\<in>set (simplificationTreeSearches counting).
      \<forall>n. \<not> hasChanged (search n)
        \<longrightarrow> constantMeasure (newNode (search n)) \<le> constantMeasure n"
    by (simp add: searches countDown_keeps)
  have h3: "\<forall>n. constantMeasure (flattenOperands counting n) \<le> constantMeasure n
      \<and> constantMeasure (removeUnnecessaryParens counting n True) \<le> constantMeasure n"
    by (simp add: example_defs)
  have h4: "\<forall>ns. constantMeasure (newNode (reset counting ns))
      \<le> constantMeasure (newNode ns)"
    by (simp add: example_defs)
  have small: "constantMeasure (ConstantNode 3) \<le> MAX_STEP_COUNT"
    by (simp add: MAX_STEP_COUNT_def)
  show ?thesis
    using small
      stepThroughExpression_terminates [OF h1 h2 h3 h4, of "ConstantNode 3" False "''#''"
        "([], [])"]
    by auto
qed

text \<open>
  The claim as it stands fails: the one search of \<open>counting\<close> strictly reduces the value of
  a constant (\<open>countDown_reduces\<close>). From the constant 30 the first 21 dispatcher results
  all report a change, the bound is hit, and the last call of the dispatcher, which
  rewrites 9 to 8, reports a change as well.
\<close>

theorem final_call_unchanged_counterexample:
  "stepLoop counting False ''#'' 0 ([], []) (step counting (ConstantNode 30))
     = Some (([], [loopError ''#'']),
             NodeStatus True ''COUNT_DOWN'' (ConstantNode 9) (ConstantNode 8) [])
   \<and> hasChanged (NodeStatus True ''COUNT_DOWN'' (ConstantNode 9) (ConstantNode 8) [])
   \<and> stepThroughExpression counting (ConstantNode 30) False = Some ([], [loopError ''#''])"
proof -
  have calls: "list_all hasChanged
      (dispatchCalls counting (step counting (ConstantNode 30)) (Suc MAX_STEP_COUNT))"
    by (simp add: MAX_STEP_COUNT_def eval_nat_numeral example_defs driver_defs)
  have last: "(nextStatus counting ^^ Suc MAX_STEP_COUNT) (step counting (ConstantNode 30))
      = NodeStatus True ''COUNT_DOWN'' (ConstantNode 9) (ConstantNode 8) []"
    by (simp add: MAX_STEP_COUNT_def eval_nat_numeral example_defs driver_defs)
  have supported: "\<not> hasUnsupportedNodes counting (ConstantNode 30)"
    by (simp add: example_defs)
  have printed: "print counting (ConstantNode 30) [] = ''#''"
    by (simp add: example_defs)
  have "0 + MAX_STEP_COUNT = MAX_STEP_COUNT" by simp
  from stepLoop_bound_hit [OF calls this, of False "''#''" "[]" "[]"]
  have loop: "stepLoop counting False ''#'' 0 ([], []) (step counting (ConstantNode 30))
      = Some (([], [loopError ''#'']),
              NodeStatus True ''COUNT_DOWN'' (ConstantNode 9) (ConstantNode 8) [])"
    by (simp add: last debugOut_def del: dispatchCalls.simps funpow.simps)
  show ?thesis
    by (simp add: loop stepThroughExpression_supported [OF supported] printed debugHeader_def
        hasChanged_def)
qed

end
